theory Spec2Isabelle
  imports Main "HOL-Library.Word"
begin

section \<open>Resolver configuration: \<open>resolver/config.go\<close>\<close>

text \<open>
  \<open>FromFile\<close> reads a resolv.conf style file line by line and fills the fields of a
  \<open>Resolver\<close>. The helpers \<open>open\<close>, \<open>readLine\<close>, \<open>getFields\<close>, \<open>dtoi\<close> and the
  library function \<open>net.ParseIP\<close> are not part of the sources at hand; the result of
  \<open>open\<close> is the first argument of the model (an error, or the lines that \<open>readLine\<close>
  yields one after the other), the other three are function parameters.

  Go strings are byte sequences, as \<open>string\<close> is here. A slice expression \<open>s[lo:hi]\<close>
  on a string panics at run time when \<open>hi\<close> exceeds \<open>len(s)\<close>; the panic is a value of
  the model.
\<close>

type_synonym byte = "8 word"

datatype panic = SliceBoundsOutOfRange

datatype os_error = OsError string

record Resolver =
  Servers :: "string list"
  Search :: "string list"
  Ndots :: int
  Timeout :: int
  Attempts :: int
  Rotate :: bool

text \<open>\<open>make([]string, 3)[0:0]\<close>: the capacity of the server slice.\<close>

definition servers_cap :: nat where
  "servers_cap = 3"

text \<open>The string slice \<open>s[lo:hi]\<close>.\<close>

definition slice :: "string \<Rightarrow> nat \<Rightarrow> nat \<Rightarrow> panic + string" where
  "slice s lo hi =
     (if lo \<le> hi \<and> hi \<le> length s then Inr (take (hi - lo) (drop lo s))
      else Inl SliceBoundsOutOfRange)"

text \<open>
  One case expression of the options switch, \<open>len(s) >= g && s[0:k] == p\<close>: the right
  operand of \<open>&&\<close> is evaluated only when the guard holds.
\<close>

definition has_prefix :: "nat \<Rightarrow> nat \<Rightarrow> string \<Rightarrow> string \<Rightarrow> panic + bool" where
  "has_prefix g k p s =
     (if length s \<ge> g
      then (case slice s 0 k of Inl e \<Rightarrow> Inl e | Inr t \<Rightarrow> Inr (t = p))
      else Inr False)"

text \<open>\<open>n, _, _ := dtoi(s, i); if n < 1 { n = 1 }\<close>\<close>

definition at_least_one :: "int \<Rightarrow> int" where
  "at_least_one n = (if n < 1 then 1 else n)"

text \<open>The body of the loop over the tokens of an \<open>options\<close> line, for one token \<open>s\<close>.\<close>

definition option_token ::
  "(string \<Rightarrow> nat \<Rightarrow> int \<times> nat \<times> bool) \<Rightarrow> string \<Rightarrow> 'a Resolver_scheme \<Rightarrow> panic + 'a Resolver_scheme"
where
  "option_token dtoi s r =
     (case has_prefix 6 6 ''ndots:'' s of
        Inl e \<Rightarrow> Inl e
      | Inr True \<Rightarrow> Inr (r\<lparr>Ndots := at_least_one (fst (dtoi s 6))\<rparr>)
      | Inr False \<Rightarrow>
     (case has_prefix 8 8 ''timeout:'' s of
        Inl e \<Rightarrow> Inl e
      | Inr True \<Rightarrow> Inr (r\<lparr>Timeout := at_least_one (fst (dtoi s 8))\<rparr>)
      | Inr False \<Rightarrow>
     (case has_prefix 8 9 ''attempts:'' s of
        Inl e \<Rightarrow> Inl e
      | Inr True \<Rightarrow> Inr (r\<lparr>Attempts := at_least_one (fst (dtoi s 9))\<rparr>)
      | Inr False \<Rightarrow>
     (if s = ''rotate'' then Inr (r\<lparr>Rotate := True\<rparr>) else Inr r))))"

text \<open>\<open>for i := 1; i < len(f); i++\<close>, run over the tokens \<open>f[1], f[2], ...\<close>\<close>

fun options_loop ::
  "(string \<Rightarrow> nat \<Rightarrow> int \<times> nat \<times> bool) \<Rightarrow> string list \<Rightarrow> 'a Resolver_scheme \<Rightarrow> panic + 'a Resolver_scheme"
where
  "options_loop dtoi [] r = Inr r"
| "options_loop dtoi (s # ss) r =
     (case option_token dtoi s r of Inl e \<Rightarrow> Inl e | Inr r' \<Rightarrow> options_loop dtoi ss r')"

text \<open>
  The \<open>nameserver\<close> case. \<open>len(net.ParseIP(name))\<close> is 16, 4 or 0 (nil); the case for 16
  wraps the name in brackets and falls through to the case for 4, which appends.
\<close>

definition nameserver_case ::
  "(string \<Rightarrow> byte list) \<Rightarrow> string list \<Rightarrow> 'a Resolver_scheme \<Rightarrow> 'a Resolver_scheme"
where
  "nameserver_case ParseIP f r =
     (let a = Servers r; n = length a in
      if length f > 1 \<and> n < servers_cap then
        (let name = f ! 1; l = length (ParseIP name) in
         if l = 16 then r\<lparr>Servers := a @ [''['' @ name @ '']'']\<rparr>
         else if l = 4 then r\<lparr>Servers := a @ [name]\<rparr>
         else r)
      else r)"

definition domain_case :: "string list \<Rightarrow> 'a Resolver_scheme \<Rightarrow> 'a Resolver_scheme" where
  "domain_case f r = (if length f > 1 then r\<lparr>Search := [f ! 1]\<rparr> else r\<lparr>Search := []\<rparr>)"

text \<open>\<open>r.Search = make([]string, len(f)-1)\<close>, then \<open>r.Search[i] = f[i+1]\<close> for every index.\<close>

definition search_case :: "string list \<Rightarrow> 'a Resolver_scheme \<Rightarrow> 'a Resolver_scheme" where
  "search_case f r = r\<lparr>Search := map (\<lambda>i. f ! (i + 1)) [0 ..< length f - 1]\<rparr>"

text \<open>The body of the loop over the lines, for one line.\<close>

definition line_step ::
  "(string \<Rightarrow> string list) \<Rightarrow> (string \<Rightarrow> nat \<Rightarrow> int \<times> nat \<times> bool) \<Rightarrow> (string \<Rightarrow> byte list)
     \<Rightarrow> string \<Rightarrow> 'a Resolver_scheme \<Rightarrow> panic + 'a Resolver_scheme"
where
  "line_step getFields dtoi ParseIP line r =
     (let f = getFields line in
      if length f < 1 then Inr r
      else if f ! 0 = ''nameserver'' then Inr (nameserver_case ParseIP f r)
      else if f ! 0 = ''domain'' then Inr (domain_case f r)
      else if f ! 0 = ''search'' then Inr (search_case f r)
      else if f ! 0 = ''options'' then options_loop dtoi (drop 1 f) r
      else Inr r)"

fun read_lines ::
  "(string \<Rightarrow> string list) \<Rightarrow> (string \<Rightarrow> nat \<Rightarrow> int \<times> nat \<times> bool) \<Rightarrow> (string \<Rightarrow> byte list)
     \<Rightarrow> string list \<Rightarrow> 'a Resolver_scheme \<Rightarrow> panic + 'a Resolver_scheme"
where
  "read_lines getFields dtoi ParseIP [] r = Inr r"
| "read_lines getFields dtoi ParseIP (line # rest) r =
     (case line_step getFields dtoi ParseIP line r of
        Inl e \<Rightarrow> Inl e
      | Inr r' \<Rightarrow> read_lines getFields dtoi ParseIP rest r')"

text \<open>
  \<open>FromFile\<close>: the result is a panic, or the returned \<open>os.Error\<close> (\<open>None\<close> for nil) with
  the resolver as the call leaves it.
\<close>

definition FromFile ::
  "(string \<Rightarrow> string list) \<Rightarrow> (string \<Rightarrow> nat \<Rightarrow> int \<times> nat \<times> bool) \<Rightarrow> (string \<Rightarrow> byte list)
     \<Rightarrow> os_error + string list \<Rightarrow> 'a Resolver_scheme \<Rightarrow> panic + (os_error option \<times> 'a Resolver_scheme)"
where
  "FromFile getFields dtoi ParseIP file r =
     (case file of
        Inl err \<Rightarrow> Inr (Some err, r)
      | Inr lines \<Rightarrow>
          (case read_lines getFields dtoi ParseIP lines
                  (r\<lparr>Servers := [], Search := [], Ndots := 1, Timeout := 5,
                     Attempts := 2, Rotate := False\<rparr>) of
             Inl e \<Rightarrow> Inl e
           | Inr r' \<Rightarrow> Inr (None, r')))"

text \<open>
  Stand-ins for the helpers, used where a statement is evaluated on a concrete file:
  fields separated by blanks and tabs, decimal digits read from a position on, and an
  address table of three entries.
\<close>

fun split_fields :: "string \<Rightarrow> string \<Rightarrow> string list" where
  "split_fields cur [] = (if cur = [] then [] else [cur])"
| "split_fields cur (c # cs) =
     (if c = CHR '' '' \<or> c = CHR 0x09
      then (if cur = [] then split_fields [] cs else cur # split_fields [] cs)
      else split_fields (cur @ [c]) cs)"

definition fields_of :: "string \<Rightarrow> string list" where
  "fields_of line = split_fields [] line"

fun digits_value :: "int \<Rightarrow> string \<Rightarrow> int" where
  "digits_value n [] = n"
| "digits_value n (c # cs) =
     (if (48::nat) \<le> of_char c \<and> (of_char c :: nat) \<le> 57
      then digits_value (n * 10 + (int (of_char c) - 48)) cs
      else n)"

definition decimal_at :: "string \<Rightarrow> nat \<Rightarrow> int \<times> nat \<times> bool" where
  "decimal_at s i = (digits_value 0 (drop i s), i, True)"

definition ip_table :: "string \<Rightarrow> byte list" where
  "ip_table name =
     (if name = ''10.0.0.1'' then [10, 0, 0, 1]
      else if name = ''10.0.0.2'' then [10, 0, 0, 2]
      else if name = ''192.168.1.1'' then [192, 168, 1, 1]
      else if name = ''::1'' then replicate 15 0 @ [1]
      else [])"

text \<open>
  The server list as the comments of the \<open>nameserver\<close> case describe it: the entry a
  line contributes (the second field of a \<open>nameserver\<close> line when it is an IP address,
  in brackets when \<open>ParseIP\<close> gives 16 bytes), and the entries of all lines in order.
\<close>

definition server_entry :: "(string \<Rightarrow> byte list) \<Rightarrow> string list \<Rightarrow> string option" where
  "server_entry ParseIP f =
     (if length f > 1 \<and> f ! 0 = ''nameserver'' then
        (if length (ParseIP (f ! 1)) = 16 then Some (''['' @ f ! 1 @ '']'')
         else if length (ParseIP (f ! 1)) = 4 then Some (f ! 1)
         else None)
      else None)"

definition valid_servers ::
  "(string \<Rightarrow> string list) \<Rightarrow> (string \<Rightarrow> byte list) \<Rightarrow> string list \<Rightarrow> string list"
where
  "valid_servers getFields ParseIP lines =
     List.map_filter (\<lambda>line. server_entry ParseIP (getFields line)) lines"

text \<open>No line of the file is an \<open>options\<close> directive.\<close>

definition no_options_line :: "(string \<Rightarrow> string list) \<Rightarrow> string list \<Rightarrow> bool" where
  "no_options_line getFields lines =
     list_all (\<lambda>line. getFields line = [] \<or> getFields line ! 0 \<noteq> ''options'') lines"

section \<open>Messages, pointers and what a handler does\<close>

text \<open>
  \<open>dns.Msg\<close> is declared outside the sources at hand. The handlers read one field of it,
  \<open>MsgHdr.Response\<close>; the other fields live in the extension of the records.

  Handlers receive a \<open>*dns.Msg\<close>. A pointer is a value of a type \<open>'p\<close>, \<open>None\<close> is nil,
  and the parameter \<open>deref\<close> reads the message a pointer refers to in the current state
  of the program, so that a function that changes a message in place and returns the
  same pointer is covered.

  What a handler does is recorded as a list of events, in the order of execution: the
  functions it calls with their arguments, what it prints and what it writes to the
  connection.
\<close>

record MsgHdr =
  Response :: bool

record 'h Msg =
  MsgHdr :: "'h MsgHdr_scheme"

datatype dns_Error = Error string

datatype 'p event =
    Print_verbose "'p option" string
  | Print_rule
  | Print_Error string
  | Call_Match "'p option" int
  | Call_Action "'p option" bool
  | Conn_Write "byte list"

datatype ('p, 'e) handle_event =
    Call_handleNotify 'p
  | Call_handleXfrOut 'p
  | Print_err 'e

section \<open>The filtering proxy: \<open>_examples/funkensturm/funkensturm.go\<close>\<close>

definition IN :: int where "IN = 0"
definition OUT :: int where "OUT = 1"
definition OR :: int where "OR = 2"
definition AND :: int where "AND = 3"

record ('p, 'w) Match =
  Op :: int
  Func :: "'p option \<Rightarrow> int \<Rightarrow> 'w \<Rightarrow> ('p option \<times> bool) \<times> 'w"

record ('p, 'w) Action =
  Func :: "'p option \<Rightarrow> bool \<Rightarrow> 'w \<Rightarrow> 'p option \<times> 'w"

record ('p, 'w) Funkensturm =
  Setup :: "'w \<Rightarrow> bool \<times> 'w"
  Matches :: "('p, 'w) Match list"
  Actions :: "('p, 'w) Action list"

text \<open>\<open>verboseprint\<close> under \<open>if *verbose\<close>\<close>

definition verboseprint :: "bool \<Rightarrow> 'p option \<Rightarrow> string \<Rightarrow> 'p event list" where
  "verboseprint verbose i msg = (if verbose then [Print_verbose i msg] else [])"

text \<open>
  The first loop over \<open>f.Matches\<close>, with the loop variables \<open>pkt1\<close> and \<open>ok\<close>. The switch
  on \<open>m.Op\<close> has the cases \<open>AND\<close> and \<open>OR\<close> and no default.
\<close>

fun match_in ::
  "('p, 'w) Match list \<Rightarrow> 'p option \<Rightarrow> bool \<Rightarrow> 'w \<Rightarrow> ('p option \<times> bool) \<times> 'w \<times> 'p event list"
where
  "match_in [] pkt1 ok w = ((pkt1, ok), w, [])"
| "match_in (m # ms) pkt1 ok w =
     (case Match.Func m pkt1 IN w of
        ((pkt1', ok1), w') \<Rightarrow>
          (case match_in ms pkt1'
                  (if Op m = AND then ok \<and> ok1 else if Op m = OR then ok \<or> ok1 else ok) w' of
             (res, w'', t) \<Rightarrow> (res, w'', Call_Match pkt1 IN # t)))"

text \<open>The loop over \<open>f.Actions\<close>: every action gets \<open>pkt1\<close> and \<open>ok\<close>, the last result stays.\<close>

fun run_actions ::
  "('p, 'w) Action list \<Rightarrow> 'p option \<Rightarrow> bool \<Rightarrow> 'p option \<Rightarrow> 'w \<Rightarrow> 'p option \<times> 'w \<times> 'p event list"
where
  "run_actions [] pkt1 ok resultpkt w = (resultpkt, w, [])"
| "run_actions (a # as) pkt1 ok resultpkt w =
     (case Action.Func a pkt1 ok w of
        (resultpkt', w') \<Rightarrow>
          (case run_actions as pkt1 ok resultpkt' w' of
             (res, w'', t) \<Rightarrow> (res, w'', Call_Action pkt1 ok # t)))"

text \<open>The second loop over \<open>f.Matches\<close>, with \<open>OUT\<close>; the boolean result is dropped.\<close>

fun match_out ::
  "('p, 'w) Match list \<Rightarrow> 'p option \<Rightarrow> 'w \<Rightarrow> 'p option \<times> 'w \<times> 'p event list"
where
  "match_out [] pkt1 w = (pkt1, w, [])"
| "match_out (m # ms) pkt1 w =
     (case Match.Func m pkt1 OUT w of
        ((pkt1', _), w') \<Rightarrow>
          (case match_out ms pkt1' w' of
             (res, w'', t) \<Rightarrow> (res, w'', Call_Match pkt1 OUT # t)))"

text \<open>
  \<open>doFunkensturm\<close>. The listener passes a decoded message, so \<open>pkt\<close> is not nil. \<open>Pack\<close>
  is a parameter; a \<open>[]byte\<close> is \<open>None\<close> when nil. The result is the pair the function
  returns, the state it leaves and its events.
\<close>

definition doFunkensturm ::
  "bool \<Rightarrow> ('w \<Rightarrow> 'p \<Rightarrow> ('h, 'm) Msg_scheme) \<Rightarrow> (('h, 'm) Msg_scheme \<Rightarrow> byte list option \<times> bool)
     \<Rightarrow> ('p, 'w) Funkensturm \<Rightarrow> 'p \<Rightarrow> 'w
     \<Rightarrow> (byte list option \<times> dns_Error option) \<times> 'w \<times> 'p event list"
where
  "doFunkensturm verbose deref Pack f pkt w =
     (let t0 = verboseprint verbose (Some pkt) ''ORIGINAL INCOMING'' in
      if Response (MsgHdr (deref w pkt)) = True
      then ((None, Some (Error ''Response bit set, not replying'')), w, t0)
      else
        (case match_in (Matches f) (Some pkt) True w of
           ((pkt1, ok), w1, t1) \<Rightarrow>
        (case run_actions (Actions f) pkt1 ok None w1 of
           (resultpkt, w2, t2) \<Rightarrow>
        (case match_out (Matches f) resultpkt w2 of
           (pkt1', w3, t3) \<Rightarrow>
             (let t = t0 @ t1 @ verboseprint verbose pkt1 ''MODIFIED INCOMING'' @ t2
                        @ verboseprint verbose resultpkt ''ORIGINAL OUTGOING'' @ t3 in
              case pkt1' of
                None \<Rightarrow> ((None, None), w3, t)
              | Some q \<Rightarrow>
                  (let t' = t @ verboseprint verbose pkt1' ''MODIFIED OUTGOING''
                              @ (if verbose then [Print_rule] else []) in
                   case Pack (deref w3 q) of
                     (out, ok1) \<Rightarrow>
                       if \<not> ok1 then ((None, Some (Error ''Packing packet failed'')), w3, t')
                       else ((out, None), w3, t')))))))"

text \<open>\<open>err.String()\<close> of a \<open>dns.Error\<close>\<close>

fun Error_String :: "dns_Error \<Rightarrow> string" where
  "Error_String (Error s) = s"

definition reply ::
  "bool \<Rightarrow> ('w \<Rightarrow> 'p \<Rightarrow> ('h, 'm) Msg_scheme) \<Rightarrow> (('h, 'm) Msg_scheme \<Rightarrow> byte list option \<times> bool)
     \<Rightarrow> ('p, 'w) Funkensturm \<Rightarrow> 'p \<Rightarrow> 'w \<Rightarrow> 'w \<times> 'p event list"
where
  "reply verbose deref Pack f i w =
     (case doFunkensturm verbose deref Pack f i w of
        ((out, err), w', t) \<Rightarrow>
          (case err of
             Some e \<Rightarrow> (w', t @ [Print_Error (Error_String e)])
           | None \<Rightarrow>
               (case out of
                  Some bs \<Rightarrow> (w', t @ [Conn_Write bs])
                | None \<Rightarrow> (w', t))))"

text \<open>
  The verdict as the comment on the configuration type has it,
  \<open>true Match[0].Op Match[0].Func() Match[1].Op Match[1].Func() ...\<close>: the operator and
  the result of every stage, the message (and state) stage \<open>n\<close> returns being the input
  of stage \<open>n + 1\<close>, folded from the left starting with true.
\<close>

fun stage_results :: "('p, 'w) Match list \<Rightarrow> 'p option \<Rightarrow> 'w \<Rightarrow> (int \<times> bool) list" where
  "stage_results [] pkt w = []"
| "stage_results (m # ms) pkt w =
     (Op m, snd (fst (Match.Func m pkt IN w)))
       # stage_results ms (fst (fst (Match.Func m pkt IN w))) (snd (Match.Func m pkt IN w))"

definition combine :: "bool \<Rightarrow> int \<times> bool \<Rightarrow> bool" where
  "combine acc stage = (if fst stage = AND then acc \<and> snd stage else acc \<or> snd stage)"

definition verdict :: "('p, 'w) Match list \<Rightarrow> 'p option \<Rightarrow> 'w \<Rightarrow> bool" where
  "verdict ms pkt w = foldl combine True (stage_results ms pkt w)"

text \<open>The verdicts the actions were called with, read off the events.\<close>

fun action_verdicts :: "'p event list \<Rightarrow> bool list" where
  "action_verdicts [] = []"
| "action_verdicts (Call_Action p b # t) = b # action_verdicts t"
| "action_verdicts (_ # t) = action_verdicts t"

fun conn_writes :: "'p event list \<Rightarrow> byte list list" where
  "conn_writes [] = []"
| "conn_writes (Conn_Write bs # t) = bs # conn_writes t"
| "conn_writes (_ # t) = conn_writes t"

fun calls :: "'p event list \<Rightarrow> 'p event list" where
  "calls [] = []"
| "calls (Call_Match p d # t) = Call_Match p d # calls t"
| "calls (Call_Action p b # t) = Call_Action p b # calls t"
| "calls (_ # t) = calls t"

text \<open>
  The message \<open>doFunkensturm\<close> is about to encode: the pointer the three loops leave in
  \<open>pkt1\<close>, and the state they leave.
\<close>

definition outgoing :: "('p, 'w) Funkensturm \<Rightarrow> 'p \<Rightarrow> 'w \<Rightarrow> 'p option \<times> 'w" where
  "outgoing f pkt w =
     (case match_in (Matches f) (Some pkt) True w of
        ((pkt1, ok), w1, t1) \<Rightarrow>
     (case run_actions (Actions f) pkt1 ok None w1 of
        (resultpkt, w2, t2) \<Rightarrow>
     (case match_out (Matches f) resultpkt w2 of
        (pkt1', w3, t3) \<Rightarrow> (pkt1', w3))))"

section \<open>The transfer proxy: \<open>handle\<close> and the global \<open>Zone\<close>\<close>

text \<open>
  \<open>type zone struct\<close> with its array \<open>rrs [10000]dns.RR\<close>. An element of the array is an
  interface value, \<open>None\<close> when nil. The zero value of the struct is what \<open>var Zone zone\<close>
  holds when the program starts.
\<close>

definition zone_capacity :: nat where
  "zone_capacity = 10000"

record 'rr zone =
  name :: string
  rrs :: "'rr option list"
  size_z :: int
  correct :: bool

definition zone_zero :: "'rr zone" where
  "zone_zero = \<lparr>name = [], rrs = replicate zone_capacity None, size_z = 0, correct = False\<rparr>"

text \<open>The program state: the global \<open>Zone\<close>; everything else is in the extension.\<close>

record 'rr globals =
  Zone :: "'rr zone"

text \<open>
  \<open>handle\<close>. \<open>handleNotify\<close> and \<open>handleXfrOut\<close> are not in the sources; they are parameters
  that take the connection, the message and the state, and return an \<open>os.Error\<close>
  (\<open>None\<close> for nil) and the new state.
\<close>

definition handle ::
  "(('rr, 'x) globals_scheme \<Rightarrow> 'p \<Rightarrow> ('h, 'm) Msg_scheme)
     \<Rightarrow> ('c \<Rightarrow> 'p \<Rightarrow> ('rr, 'x) globals_scheme \<Rightarrow> 'e option \<times> ('rr, 'x) globals_scheme)
     \<Rightarrow> ('c \<Rightarrow> 'p \<Rightarrow> ('rr, 'x) globals_scheme \<Rightarrow> 'e option \<times> ('rr, 'x) globals_scheme)
     \<Rightarrow> 'c \<Rightarrow> 'p \<Rightarrow> ('rr, 'x) globals_scheme
     \<Rightarrow> ('rr, 'x) globals_scheme \<times> ('p, 'e) handle_event list"
where
  "handle deref handleNotify handleXfrOut d i s =
     (if Response (MsgHdr (deref s i)) = True then (s, [])
      else
        (case handleNotify d i s of
           (err1, s1) \<Rightarrow>
        (case handleXfrOut d i s1 of
           (err2, s2) \<Rightarrow>
             ((if name (Zone s2) \<noteq> [] then s2\<lparr>Zone := (Zone s2)\<lparr>correct := False\<rparr>\<rparr> else s2),
              Call_handleNotify i # (case err1 of Some e \<Rightarrow> [Print_err e] | None \<Rightarrow> [])
                @ Call_handleXfrOut i # (case err2 of Some e \<Rightarrow> [Print_err e] | None \<Rightarrow> [])))))"

section \<open>The Transfer Engine\<close>

text \<open>
  Modelled from the spec: the Transfer Engine (the file \<open>xfr.go\<close> and the functions
  \<open>handleNotify\<close> and \<open>handleXfrOut\<close> are missing from the sources). The state machine of
  section 4.3 of the specification, one instance per transfer attempt:
  \<open>Idle \<rightarrow> NotifyReceived \<rightarrow> TransferRequested \<rightarrow> Streaming \<rightarrow> (Verifying \<rightarrow> Committed) | Aborted\<close>.
  \<^item> A NOTIFY for a known zone whose serial is newer than the one held locally moves
    \<open>Idle\<close> to \<open>NotifyReceived\<close>; one that is not newer starts nothing.
  \<^item> Opening the TCP connection and issuing the query moves on to \<open>TransferRequested\<close>.
  \<^item> The records of the response accumulate in a scratch buffer, not in the Zone Store,
    until the terminating SOA record is seen; a record that would exceed the capacity
    aborts the transfer and overflow is reported.
  \<^item> The Authentication Layer then reports its verdict: on success the scratch buffer
    replaces the contents of the Zone Store and \<open>correct\<close> is set true.
  \<^item> A connection error, a timeout of a network wait, a malformed stream and a failed
    verification abort the transfer and are reported.
  \<open>Committed\<close> and \<open>Aborted\<close> end the instance. An event that the phase does not expect
  (a second NOTIFY while a transfer runs, for one) is ignored.
\<close>

datatype xfr_phase =
  Idle | NotifyReceived | TransferRequested | Streaming | Verifying | Committed | Aborted

datatype TransferError = ConnectionError | MalformedStream | VerificationFailure | BufferOverflow

datatype 'rr xfr_event =
    Notify string nat
  | Connected
  | ConnectFailed
  | Record 'rr
  | TerminatingSOA
  | Malformed
  | ConnectionDrop
  | WaitTimeout
  | Verdict bool

text \<open>
  Modelled from the spec: one instance of the state machine, with the zone and serial of
  the NOTIFY, the serial held locally, the scratch buffer, the live Zone Store, and the
  failure reported upward.
\<close>

record 'rr engine =
  phase :: xfr_phase
  apex :: string
  held_serial :: nat
  new_serial :: nat
  scratch :: "'rr list"
  store :: "'rr zone"
  reported :: "TransferError option"

text \<open>Modelled from the spec: a new instance, \<open>Idle\<close>, on the store \<open>z\<close>.\<close>

definition xfr_start :: "'rr zone \<Rightarrow> nat \<Rightarrow> 'rr engine" where
  "xfr_start z serial =
     \<lparr>phase = Idle, apex = [], held_serial = serial, new_serial = serial, scratch = [],
      store = z, reported = None\<rparr>"

text \<open>Modelled from the spec: the transition to \<open>Aborted\<close>; the failure is reported.\<close>

definition abort :: "TransferError \<Rightarrow> 'rr engine \<Rightarrow> 'rr engine" where
  "abort err e = e\<lparr>phase := Aborted, reported := Some err\<rparr>"

text \<open>
  Modelled from the spec: the transition to \<open>Committed\<close>. The scratch buffer replaces the
  contents of the store (the name, the array, the count) and \<open>correct\<close> is set true.
\<close>

definition commit :: "'rr engine \<Rightarrow> 'rr engine" where
  "commit e =
     e\<lparr>phase := Committed, held_serial := new_serial e,
       store := \<lparr>name = apex e,
                 rrs = map Some (scratch e) @ replicate (zone_capacity - length (scratch e)) None,
                 size_z = int (length (scratch e)),
                 correct = True\<rparr>\<rparr>"

text \<open>
  Modelled from the spec: one element of the response stream, in \<open>TransferRequested\<close> and
  in \<open>Streaming\<close>.
\<close>

fun stream_step :: "'rr xfr_event \<Rightarrow> 'rr engine \<Rightarrow> 'rr engine" where
  "stream_step (Record r) e =
     (if length (scratch e) + 1 > zone_capacity then abort BufferOverflow e
      else e\<lparr>phase := Streaming, scratch := scratch e @ [r]\<rparr>)"
| "stream_step TerminatingSOA e = e\<lparr>phase := Verifying\<rparr>"
| "stream_step Malformed e = abort MalformedStream e"
| "stream_step ConnectionDrop e = abort ConnectionError e"
| "stream_step WaitTimeout e = abort ConnectionError e"
| "stream_step _ e = e"

text \<open>Modelled from the spec: one transition of the state machine.\<close>

fun xfr_step :: "'rr xfr_event \<Rightarrow> 'rr engine \<Rightarrow> 'rr engine" where
  "xfr_step ev e =
     (case phase e of
        Idle \<Rightarrow>
          (case ev of
             Notify z serial \<Rightarrow>
               if held_serial e < serial
               then e\<lparr>phase := NotifyReceived, apex := z, new_serial := serial\<rparr>
               else e
           | _ \<Rightarrow> e)
      | NotifyReceived \<Rightarrow>
          (case ev of
             Connected \<Rightarrow> e\<lparr>phase := TransferRequested, scratch := []\<rparr>
           | ConnectFailed \<Rightarrow> abort ConnectionError e
           | WaitTimeout \<Rightarrow> abort ConnectionError e
           | _ \<Rightarrow> e)
      | TransferRequested \<Rightarrow> stream_step ev e
      | Streaming \<Rightarrow> stream_step ev e
      | Verifying \<Rightarrow>
          (case ev of
             Verdict ok \<Rightarrow> if ok then commit e else abort VerificationFailure e
           | _ \<Rightarrow> e)
      | Committed \<Rightarrow> e
      | Aborted \<Rightarrow> e)"

text \<open>Modelled from the spec: the instance run on the events of one attempt, in order.\<close>

fun xfr_run :: "'rr xfr_event list \<Rightarrow> 'rr engine \<Rightarrow> 'rr engine" where
  "xfr_run [] e = e"
| "xfr_run (ev # evs) e = xfr_run evs (xfr_step ev e)"

text \<open>
  Modelled from the spec: \<open>handleNotify\<close>, missing from the sources, as one transfer
  attempt on the events the network delivers: it starts an instance on the global \<open>Zone\<close>,
  runs it, leaves the store of the instance in \<open>Zone\<close> and returns what was reported.
\<close>

definition handleNotify_xfr ::
  "'rr xfr_event list \<Rightarrow> nat \<Rightarrow> 'c \<Rightarrow> 'p \<Rightarrow> ('rr, 'x) globals_scheme
     \<Rightarrow> TransferError option \<times> ('rr, 'x) globals_scheme"
where
  "handleNotify_xfr evs serial d i s =
     (case xfr_run evs (xfr_start (Zone s) serial) of
        e \<Rightarrow> (reported e, s\<lparr>Zone := store e\<rparr>))"

text \<open>
  Modelled from the spec: the operations on the Zone Store. A transfer attempt of the
  engine is the one operation the specification allows to replace the store; the other
  one is the last statement of \<open>handle\<close>, taken from the code. \<open>zone_after\<close> is the store
  after a sequence of them.
\<close>

datatype 'rr store_op = Transfer "'rr xfr_event list" nat | Handle_end

fun apply_op :: "'rr store_op \<Rightarrow> 'rr zone \<Rightarrow> 'rr zone" where
  "apply_op (Transfer evs serial) z = store (xfr_run evs (xfr_start z serial))"
| "apply_op Handle_end z = (if name z \<noteq> [] then z\<lparr>correct := False\<rparr> else z)"

fun zone_after :: "'rr store_op list \<Rightarrow> 'rr zone \<Rightarrow> 'rr zone" where
  "zone_after [] z = z"
| "zone_after (op # ops) z = zone_after ops (apply_op op z)"

text \<open>The array has its declared length and the count lies within it.\<close>

definition zone_bounded :: "'rr zone \<Rightarrow> bool" where
  "zone_bounded z =
     (length (rrs z) = zone_capacity \<and> 0 \<le> size_z z \<and> size_z z \<le> int zone_capacity)"

text \<open>
  Modelled from the spec: the step failures of section 4.3 (connection error, malformed
  stream, verification failure, overflow of the fixed-capacity buffer) and section 5
  (timeout of a network wait): the failure, if any, that an event is in the phase of the
  instance.
\<close>

definition failure_of :: "'rr xfr_event \<Rightarrow> 'rr engine \<Rightarrow> TransferError option" where
  "failure_of ev e =
     (if phase e = NotifyReceived then
        (case ev of
           ConnectFailed \<Rightarrow> Some ConnectionError
         | WaitTimeout \<Rightarrow> Some ConnectionError
         | _ \<Rightarrow> None)
      else if phase e = TransferRequested \<or> phase e = Streaming then
        (case ev of
           Record r \<Rightarrow> if zone_capacity \<le> length (scratch e) then Some BufferOverflow else None
         | Malformed \<Rightarrow> Some MalformedStream
         | ConnectionDrop \<Rightarrow> Some ConnectionError
         | WaitTimeout \<Rightarrow> Some ConnectionError
         | _ \<Rightarrow> None)
      else if phase e = Verifying then
        (case ev of
           Verdict ok \<Rightarrow> if ok then None else Some VerificationFailure
         | _ \<Rightarrow> None)
      else None)"

section \<open>Concrete inputs\<close>

text \<open>
  A small configuration on which statements are evaluated. Pointers and states are
  natural numbers; pointer 0 refers to a message with the response bit set, every other
  pointer to a query. The first stage answers true for \<open>OUT\<close> only and counts its calls in
  the state, the second moves to the next pointer and answers true; the action returns
  the message it gets.
\<close>

definition example_deref :: "nat \<Rightarrow> nat \<Rightarrow> (unit, unit) Msg_scheme" where
  "example_deref w p = \<lparr>MsgHdr = \<lparr>Response = (p = 0)\<rparr>\<rparr>"

definition example_config :: "(nat, nat) Funkensturm" where
  "example_config =
     \<lparr>Setup = (\<lambda>w. (True, w)),
      Matches = [\<lparr>Op = AND, Func = (\<lambda>p d w. ((p, d = OUT), Suc w))\<rparr>,
                 \<lparr>Op = OR, Func = (\<lambda>p d w. ((map_option Suc p, True), w))\<rparr>],
      Actions = [\<lparr>Func = (\<lambda>p ok w. (p, w))\<rparr>]\<rparr>"

definition Pack_ok :: "(unit, unit) Msg_scheme \<Rightarrow> byte list option \<times> bool" where
  "Pack_ok m = (Some [0, 1, 2], True)"

definition Pack_fails :: "(unit, unit) Msg_scheme \<Rightarrow> byte list option \<times> bool" where
  "Pack_fails m = (None, False)"

text \<open>The state of the transfer proxy with nothing but the global \<open>Zone\<close>.\<close>

definition globals_deref :: "nat globals \<Rightarrow> nat \<Rightarrow> (unit, unit) Msg_scheme" where
  "globals_deref s p = \<lparr>MsgHdr = \<lparr>Response = (p = 0)\<rparr>\<rparr>"

definition handler_nop :: "unit \<Rightarrow> nat \<Rightarrow> nat globals \<Rightarrow> TransferError option \<times> nat globals" where
  "handler_nop d i s = (None, s)"

text \<open>
  A transfer of the zone \<open>example.com.\<close> with serial 5, the serial held being 3: two
  records, the terminating SOA, and a successful verification. The same stream with the
  connection dropping after the two records.
\<close>

definition stream_complete :: "nat xfr_event list" where
  "stream_complete =
     [Notify ''example.com.'' 5, Connected, Record 1, Record 2, TerminatingSOA, Verdict True]"



section \<open>Properties of \<open>FromFile\<close>\<close>

subsection \<open>The server list\<close>

lemma option_token_Servers:
  "option_token dtoi s r = Inr r' \<Longrightarrow> Servers r' = Servers r"
  by (auto simp: option_token_def split: sum.splits bool.splits if_splits)

lemma options_loop_Servers:
  "options_loop dtoi ss r = Inr r' \<Longrightarrow> Servers r' = Servers r"
proof (induction ss arbitrary: r)
  case Nil
  then show ?case by simp
next
  case (Cons s ss)
  then show ?case
    by (auto split: sum.splits dest: option_token_Servers)
qed

lemma line_step_Servers:
  assumes "line_step getFields dtoi ParseIP line r = Inr r'"
    and "length (Servers r) \<le> servers_cap"
  shows "Servers r' =
           take servers_cap (Servers r @
             (case server_entry ParseIP (getFields line) of None \<Rightarrow> [] | Some s \<Rightarrow> [s]))"
  using assms
  by (auto simp: line_step_def Let_def server_entry_def nameserver_case_def domain_case_def
        search_case_def servers_cap_def
      split: if_splits dest: options_loop_Servers)

lemma read_lines_Servers:
  assumes "read_lines getFields dtoi ParseIP lines r = Inr r'"
    and "length (Servers r) \<le> servers_cap"
  shows "Servers r' = take servers_cap (Servers r @ valid_servers getFields ParseIP lines)"
  using assms
proof (induction lines arbitrary: r)
  case Nil
  then show ?case by (simp add: valid_servers_def)
next
  case (Cons line rest)
  from Cons.prems(1) obtain r1 where
    st: "line_step getFields dtoi ParseIP line r = Inr r1"
    and rl: "read_lines getFields dtoi ParseIP rest r1 = Inr r'"
    by (auto split: sum.splits)
  have s1: "Servers r1 = take servers_cap (Servers r @
              (case server_entry ParseIP (getFields line) of None \<Rightarrow> [] | Some s \<Rightarrow> [s]))"
    using line_step_Servers [OF st Cons.prems(2)] .
  then have len1: "length (Servers r1) \<le> servers_cap" by simp
  have "Servers r' = take servers_cap (Servers r1 @ valid_servers getFields ParseIP rest)"
    using Cons.IH [OF rl len1] .
  also have "\<dots> = take servers_cap (Servers r @ valid_servers getFields ParseIP (line # rest))"
    unfolding s1 valid_servers_def
    by (cases "server_entry ParseIP (getFields line)")
       (auto simp: take_Cons' min_def split: if_splits)
  finally show ?case .
qed

text \<open>
  Claim C10. When \<open>FromFile\<close> has read a file and returns, it returns no error, the
  server list has at most three entries, it is the first three of the entries that the
  \<open>nameserver\<close> lines with an IP address contribute (in brackets when the address has 16
  bytes), so that later \<open>nameserver\<close> lines are dropped without an error, and every entry
  comes from such a line of the file.
\<close>

theorem FromFile_servers:
  assumes "FromFile getFields dtoi ParseIP (Inr lines) r = Inr (err, r')"
  shows "err = None \<and> length (Servers r') \<le> 3 \<and>
         Servers r' = take 3 (valid_servers getFields ParseIP lines) \<and>
         (\<forall>s \<in> set (Servers r'). \<exists>line \<in> set lines.
              server_entry ParseIP (getFields line) = Some s)"
proof -
  let ?r0 = "r\<lparr>Servers := [], Search := [], Ndots := 1, Timeout := 5, Attempts := 2,
               Rotate := False\<rparr>"
  from assms have e: "err = None"
    and rl: "read_lines getFields dtoi ParseIP lines ?r0 = Inr r'"
    by (auto simp: FromFile_def split: sum.splits)
  have s: "Servers r' = take 3 (valid_servers getFields ParseIP lines)"
    using read_lines_Servers [OF rl] by (simp add: servers_cap_def)
  have "\<exists>line \<in> set lines. server_entry ParseIP (getFields line) = Some x"
    if "x \<in> set (Servers r')" for x
  proof -
    from that s have "x \<in> set (valid_servers getFields ParseIP lines)"
      by (auto dest: in_set_takeD)
    then show ?thesis
      by (auto simp: valid_servers_def List.map_filter_def)
  qed
  with e s show ?thesis by simp
qed

theorem FromFile_servers_witness:
  "FromFile fields_of decimal_at ip_table
     (Inr [''nameserver ::1'', ''nameserver ns.example'', ''nameserver 10.0.0.1'',
           ''nameserver 10.0.0.2'', ''nameserver 192.168.1.1''])
     \<lparr>Servers = [], Search = [], Ndots = 0, Timeout = 0, Attempts = 0, Rotate = False\<rparr>
   = Inr (None, \<lparr>Servers = [''[::1]'', ''10.0.0.1'', ''10.0.0.2''], Search = [], Ndots = 1,
                  Timeout = 5, Attempts = 2, Rotate = False\<rparr>) \<and>
   take 3 (valid_servers fields_of ip_table
     [''nameserver ::1'', ''nameserver ns.example'', ''nameserver 10.0.0.1'',
      ''nameserver 10.0.0.2'', ''nameserver 192.168.1.1''])
   = [''[::1]'', ''10.0.0.1'', ''10.0.0.2'']"
proof -
  have h: "FromFile fields_of decimal_at ip_table
     (Inr [''nameserver ::1'', ''nameserver ns.example'', ''nameserver 10.0.0.1'',
           ''nameserver 10.0.0.2'', ''nameserver 192.168.1.1''])
     \<lparr>Servers = [], Search = [], Ndots = 0, Timeout = 0, Attempts = 0, Rotate = False\<rparr>
   = Inr (None, \<lparr>Servers = [''[::1]'', ''10.0.0.1'', ''10.0.0.2''], Search = [], Ndots = 1,
                  Timeout = 5, Attempts = 2, Rotate = False\<rparr>)"
    by (simp add: FromFile_def line_step_def fields_of_def nameserver_case_def ip_table_def
          servers_cap_def)
  show ?thesis
    using h FromFile_servers [OF h] by simp
qed

subsection \<open>The defaults of the options\<close>

lemma line_step_no_options:
  assumes "getFields line = [] \<or> getFields line ! 0 \<noteq> ''options''"
  shows "\<exists>r'. line_step getFields dtoi ParseIP line r = Inr r' \<and> Ndots r' = Ndots r \<and>
           Timeout r' = Timeout r \<and> Attempts r' = Attempts r \<and> Rotate r' = Rotate r"
  using assms
  by (auto simp: line_step_def Let_def nameserver_case_def domain_case_def search_case_def)

lemma read_lines_no_options:
  assumes "no_options_line getFields lines"
  shows "\<exists>r'. read_lines getFields dtoi ParseIP lines r = Inr r' \<and> Ndots r' = Ndots r \<and>
           Timeout r' = Timeout r \<and> Attempts r' = Attempts r \<and> Rotate r' = Rotate r"
  using assms
proof (induction lines arbitrary: r)
  case Nil
  then show ?case by simp
next
  case (Cons line rest)
  from Cons.prems have hd: "getFields line = [] \<or> getFields line ! 0 \<noteq> ''options''"
    and tl: "no_options_line getFields rest"
    by (simp_all add: no_options_line_def)
  from line_step_no_options [of getFields line dtoi ParseIP r] hd obtain r1 where
    st: "line_step getFields dtoi ParseIP line r = Inr r1"
    and eq1: "Ndots r1 = Ndots r" "Timeout r1 = Timeout r" "Attempts r1 = Attempts r"
      "Rotate r1 = Rotate r"
    by blast
  from Cons.IH [OF tl, of r1] obtain r' where
    "read_lines getFields dtoi ParseIP rest r1 = Inr r'"
    "Ndots r' = Ndots r1" "Timeout r' = Timeout r1" "Attempts r' = Attempts r1"
    "Rotate r' = Rotate r1"
    by blast
  with st eq1 show ?case by simp
qed

text \<open>
  Claim C6. On a file without an \<open>options\<close> line \<open>FromFile\<close> returns without an error
  (and without a panic), and the resolver it leaves has \<open>Ndots = 1\<close>, \<open>Timeout = 5\<close>,
  \<open>Attempts = 2\<close> and \<open>Rotate = false\<close>, whatever it held before.
\<close>

theorem FromFile_defaults_without_options:
  assumes "no_options_line getFields lines"
  shows "\<exists>r'. FromFile getFields dtoi ParseIP (Inr lines) r = Inr (None, r') \<and>
           Ndots r' = 1 \<and> Timeout r' = 5 \<and> Attempts r' = 2 \<and> Rotate r' = False"
proof -
  let ?r0 = "r\<lparr>Servers := [], Search := [], Ndots := 1, Timeout := 5, Attempts := 2,
               Rotate := False\<rparr>"
  from read_lines_no_options [OF assms, of dtoi ParseIP ?r0] obtain r' where
    "read_lines getFields dtoi ParseIP lines ?r0 = Inr r'"
    "Ndots r' = Ndots ?r0" "Timeout r' = Timeout ?r0" "Attempts r' = Attempts ?r0"
    "Rotate r' = Rotate ?r0"
    by blast
  then show ?thesis by (simp add: FromFile_def)
qed

theorem FromFile_defaults_without_options_witness:
  "no_options_line fields_of [''nameserver 10.0.0.1'', [], ''search a.example b.example''] \<and>
   (\<exists>r'. FromFile fields_of decimal_at ip_table
           (Inr [''nameserver 10.0.0.1'', [], ''search a.example b.example''])
           \<lparr>Servers = [''old''], Search = [], Ndots = 7, Timeout = 9, Attempts = 4,
              Rotate = True\<rparr>
         = Inr (None, r') \<and>
         Ndots r' = 1 \<and> Timeout r' = 5 \<and> Attempts r' = 2 \<and> Rotate r' = False)"
proof -
  have h: "no_options_line fields_of
             [''nameserver 10.0.0.1'', [], ''search a.example b.example'']"
    by (simp add: no_options_line_def fields_of_def)
  show ?thesis
    using h FromFile_defaults_without_options [OF h, of decimal_at ip_table
      "\<lparr>Servers = [''old''], Search = [], Ndots = 7, Timeout = 9, Attempts = 4,
         Rotate = True\<rparr>"]
    by simp
qed

subsection \<open>The slice of the \<open>attempts:\<close> case\<close>

text \<open>
  Claim C9. The guard of the third case of the options switch is \<open>len(s) >= 8\<close>, the
  slice it protects is \<open>s[0:9]\<close>. On the line \<open>options attempts\<close> the token has eight
  bytes, the first two cases do not match, and the slice panics: \<open>FromFile\<close> does not
  return.
\<close>

theorem FromFile_attempts_slice_panics:
  "FromFile fields_of dtoi ParseIP (Inr [''options attempts'']) r = Inl SliceBoundsOutOfRange"
  by (simp add: FromFile_def line_step_def fields_of_def option_token_def has_prefix_def
        slice_def)

section \<open>Properties of \<open>doFunkensturm\<close> and \<open>reply\<close>\<close>

lemma action_verdicts_append:
  "action_verdicts (s @ t) = action_verdicts s @ action_verdicts t"
  by (induction s rule: action_verdicts.induct) simp_all

lemma conn_writes_append: "conn_writes (s @ t) = conn_writes s @ conn_writes t"
  by (induction s rule: conn_writes.induct) simp_all

lemma calls_append: "calls (s @ t) = calls s @ calls t"
  by (induction s rule: calls.induct) simp_all

lemma verboseprint_silent:
  "action_verdicts (verboseprint v p msg) = []"
  "conn_writes (verboseprint v p msg) = []"
  "calls (verboseprint v p msg) = []"
  by (simp_all add: verboseprint_def)

lemma match_in_events:
  "action_verdicts (snd (snd (match_in ms p ok w))) = [] \<and>
   conn_writes (snd (snd (match_in ms p ok w))) = []"
proof (induction ms arbitrary: p ok w)
  case Nil
  show ?case by simp
next
  case (Cons m ms)
  obtain p1 b1 w1 where f: "Match.Func m p IN w = ((p1, b1), w1)"
    by (metis prod.exhaust)
  let ?ok = "if Op m = AND then ok \<and> b1 else if Op m = OR then ok \<or> b1 else ok"
  obtain res w2 t where r: "match_in ms p1 ?ok w1 = (res, w2, t)"
    by (metis prod.exhaust)
  from Cons.IH [of p1 ?ok w1] r have "action_verdicts t = [] \<and> conn_writes t = []"
    by simp
  with f r show ?case by simp
qed

lemma match_out_events:
  "action_verdicts (snd (snd (match_out ms p w))) = [] \<and>
   conn_writes (snd (snd (match_out ms p w))) = []"
proof (induction ms arbitrary: p w)
  case Nil
  show ?case by simp
next
  case (Cons m ms)
  obtain p1 b1 w1 where f: "Match.Func m p OUT w = ((p1, b1), w1)"
    by (metis prod.exhaust)
  obtain res w2 t where r: "match_out ms p1 w1 = (res, w2, t)"
    by (metis prod.exhaust)
  from Cons.IH [of p1 w1] r have "action_verdicts t = [] \<and> conn_writes t = []"
    by simp
  with f r show ?case by simp
qed

lemma run_actions_events:
  "action_verdicts (snd (snd (run_actions as p ok r w))) = replicate (length as) ok \<and>
   conn_writes (snd (snd (run_actions as p ok r w))) = []"
proof (induction as arbitrary: r w)
  case Nil
  show ?case by simp
next
  case (Cons a as)
  obtain r1 w1 where f: "Action.Func a p ok w = (r1, w1)"
    by (metis prod.exhaust)
  obtain res w2 t where rec: "run_actions as p ok r1 w1 = (res, w2, t)"
    by (metis prod.exhaust)
  from Cons.IH [of r1 w1] rec
  have "action_verdicts t = replicate (length as) ok \<and> conn_writes t = []"
    by simp
  with f rec show ?case by simp
qed

text \<open>The loop computes the fold, when every operator is \<open>AND\<close> or \<open>OR\<close>.\<close>

lemma match_in_verdict:
  assumes "\<forall>m \<in> set ms. Op m = AND \<or> Op m = OR"
    and "match_in ms p ok w = ((p', ok'), w', t)"
  shows "ok' = foldl combine ok (stage_results ms p w)"
  using assms
proof (induction ms arbitrary: p ok w t)
  case Nil
  then show ?case by simp
next
  case (Cons m ms)
  obtain p1 b1 w1 where f: "Match.Func m p IN w = ((p1, b1), w1)"
    by (metis prod.exhaust)
  from Cons.prems(2) f obtain t1 where
    rest: "match_in ms p1 (if Op m = AND then ok \<and> b1 else if Op m = OR then ok \<or> b1 else ok) w1
             = ((p', ok'), w', t1)"
    by (auto split: prod.splits)
  from Cons.prems(1) have opm: "Op m = AND \<or> Op m = OR"
    and ops: "\<forall>m \<in> set ms. Op m = AND \<or> Op m = OR"
    by simp_all
  have step: "(if Op m = AND then ok \<and> b1 else if Op m = OR then ok \<or> b1 else ok)
                = combine ok (Op m, b1)"
    using opm by (auto simp: combine_def)
  from Cons.IH [OF ops rest] show ?case
    using f step by simp
qed

text \<open>
  Claim C8. For a message without the response bit and a configuration whose operators
  are \<open>AND\<close> and \<open>OR\<close>, \<open>doFunkensturm\<close> calls every action once, and the verdict it passes
  in each call is the fold from the left, starting with true, of the stage results with
  their operators, the message a stage returns being the input of the next.
\<close>

theorem doFunkensturm_verdict:
  assumes "\<forall>m \<in> set (Matches f). Op m = AND \<or> Op m = OR"
    and "\<not> Response (MsgHdr (deref w pkt))"
  shows "action_verdicts (snd (snd (doFunkensturm verbose deref Pack f pkt w)))
           = replicate (length (Actions f)) (verdict (Matches f) (Some pkt) w)"
proof -
  obtain pkt1 ok w1 t1 where mi: "match_in (Matches f) (Some pkt) True w = ((pkt1, ok), w1, t1)"
    by (metis prod.exhaust)
  obtain resultpkt w2 t2 where ra: "run_actions (Actions f) pkt1 ok None w1 = (resultpkt, w2, t2)"
    by (metis prod.exhaust)
  obtain pkt1' w3 t3 where mo: "match_out (Matches f) resultpkt w2 = (pkt1', w3, t3)"
    by (metis prod.exhaust)
  have v: "ok = verdict (Matches f) (Some pkt) w"
    using match_in_verdict [OF assms(1) mi] by (simp add: verdict_def)
  have e1: "action_verdicts t1 = []"
    using match_in_events [of "Matches f" "Some pkt" True w] mi by simp
  have e2: "action_verdicts t2 = replicate (length (Actions f)) ok"
    using run_actions_events [of "Actions f" pkt1 ok None w1] ra by simp
  have e3: "action_verdicts t3 = []"
    using match_out_events [of "Matches f" resultpkt w2] mo by simp
  show ?thesis
    using assms(2) mi ra mo e1 e2 e3 v
    by (auto simp: doFunkensturm_def Let_def action_verdicts_append verboseprint_silent
          split: option.splits prod.splits)
qed

theorem doFunkensturm_verdict_witness:
  "map Op (Matches example_config) = [AND, OR] \<and>
   \<not> Response (MsgHdr (example_deref 0 1)) \<and>
   verdict (Matches example_config) (Some 1) 0 = True \<and>
   action_verdicts (snd (snd (doFunkensturm False example_deref Pack_ok example_config 1 0)))
     = [True]"
proof -
  have h0: "map Op (Matches example_config) = [AND, OR]"
    by (simp add: example_config_def)
  have h1: "\<forall>m \<in> set (Matches example_config). Op m = AND \<or> Op m = OR"
    by (simp add: example_config_def)
  have h2: "\<not> Response (MsgHdr (example_deref 0 1))"
    by (simp add: example_deref_def)
  have v: "verdict (Matches example_config) (Some 1) 0 = True"
    by (simp add: verdict_def example_config_def combine_def IN_def OUT_def AND_def OR_def)
  show ?thesis
    using h0 h1 h2 v
      doFunkensturm_verdict [of example_config example_deref 0 1 False Pack_ok]
    by (simp add: example_config_def)
qed

lemma doFunkensturm_outgoing:
  assumes "\<not> Response (MsgHdr (deref w pkt))"
    and "outgoing f pkt w = (Some q, w3)"
  shows "fst (doFunkensturm verbose deref Pack f pkt w) =
           (if \<not> snd (Pack (deref w3 q)) then (None, Some (Error ''Packing packet failed''))
            else (fst (Pack (deref w3 q)), None))"
    and "fst (snd (doFunkensturm verbose deref Pack f pkt w)) = w3"
  using assms
  by (auto simp: doFunkensturm_def outgoing_def Let_def split: prod.splits option.splits)

lemma doFunkensturm_no_writes:
  "conn_writes (snd (snd (doFunkensturm verbose deref Pack f pkt w))) = []"
proof -
  obtain pkt1 ok w1 t1 where mi: "match_in (Matches f) (Some pkt) True w = ((pkt1, ok), w1, t1)"
    by (metis prod.exhaust)
  obtain resultpkt w2 t2 where ra: "run_actions (Actions f) pkt1 ok None w1 = (resultpkt, w2, t2)"
    by (metis prod.exhaust)
  obtain pkt1' w3 t3 where mo: "match_out (Matches f) resultpkt w2 = (pkt1', w3, t3)"
    by (metis prod.exhaust)
  have e1: "conn_writes t1 = []"
    using match_in_events [of "Matches f" "Some pkt" True w] mi by simp
  have e2: "conn_writes t2 = []"
    using run_actions_events [of "Actions f" pkt1 ok None w1] ra by simp
  have e3: "conn_writes t3 = []"
    using match_out_events [of "Matches f" resultpkt w2] mo by simp
  show ?thesis
    using mi ra mo e1 e2 e3
    by (auto simp: doFunkensturm_def Let_def conn_writes_append verboseprint_silent
          split: option.splits prod.splits)
qed

text \<open>
  Claim C7. When the message is not a response and \<open>Pack\<close> fails on the message that
  \<open>doFunkensturm\<close> is about to send, \<open>doFunkensturm\<close> returns nil bytes and the error
  \<open>Packing packet failed\<close>; \<open>reply\<close> then writes nothing to the connection and its last
  action is to print that error.
\<close>

theorem pack_failure_reported:
  assumes "\<not> Response (MsgHdr (deref w pkt))"
    and "outgoing f pkt w = (Some q, w3)"
    and "\<not> snd (Pack (deref w3 q))"
  shows "fst (doFunkensturm verbose deref Pack f pkt w)
           = (None, Some (Error ''Packing packet failed'')) \<and>
         conn_writes (snd (reply verbose deref Pack f pkt w)) = [] \<and>
         last (snd (reply verbose deref Pack f pkt w)) = Print_Error ''Packing packet failed''"
proof -
  obtain w' t where d: "doFunkensturm verbose deref Pack f pkt w
                          = ((None, Some (Error ''Packing packet failed'')), w', t)"
    using doFunkensturm_outgoing(1) [of deref w pkt f q w3 verbose Pack] assms
    by (cases "doFunkensturm verbose deref Pack f pkt w") auto
  have "conn_writes t = []"
    using doFunkensturm_no_writes [of verbose deref Pack f pkt w] d by simp
  with d show ?thesis
    by (simp add: reply_def conn_writes_append)
qed

theorem pack_failure_reported_witness:
  "\<not> Response (MsgHdr (example_deref 0 1)) \<and>
   outgoing example_config 1 0 = (Some 3, 2) \<and>
   \<not> snd (Pack_fails (example_deref 2 3)) \<and>
   fst (doFunkensturm False example_deref Pack_fails example_config 1 0)
     = (None, Some (Error ''Packing packet failed'')) \<and>
   conn_writes (snd (reply False example_deref Pack_fails example_config 1 0)) = [] \<and>
   last (snd (reply False example_deref Pack_fails example_config 1 0))
     = Print_Error ''Packing packet failed''"
proof -
  have h1: "\<not> Response (MsgHdr (example_deref 0 1))"
    by (simp add: example_deref_def)
  have h2: "outgoing example_config 1 0 = (Some 3, 2)"
    by (simp add: outgoing_def example_config_def)
  have h3: "\<not> snd (Pack_fails (example_deref 2 3))"
    by (simp add: Pack_fails_def)
  show ?thesis
    using h1 h2 h3
      pack_failure_reported [of example_deref 0 1 example_config 3 2 Pack_fails False]
    by simp
qed

text \<open>
  Claim C2. A message with the response bit set makes \<open>reply\<close> print the verbose dump, if
  asked for, and the error, and nothing else: no match or action function is called, the
  state is the one before, nothing is written to the connection. It makes \<open>handle\<close>
  return at once: neither \<open>handleNotify\<close> nor \<open>handleXfrOut\<close> is called, nothing is
  printed, and the state with the global \<open>Zone\<close> is the one before.
\<close>

theorem response_bit_ignored:
  "(Response (MsgHdr (deref w pkt)) \<longrightarrow>
      reply verbose deref Pack f pkt w
        = (w, verboseprint verbose (Some pkt) ''ORIGINAL INCOMING''
                @ [Print_Error ''Response bit set, not replying'']) \<and>
      conn_writes (snd (reply verbose deref Pack f pkt w)) = [] \<and>
      calls (snd (reply verbose deref Pack f pkt w)) = []) \<and>
   (Response (MsgHdr (deref' s i)) \<longrightarrow>
      handle deref' handleNotify handleXfrOut d i s = (s, []))"
  by (simp add: reply_def doFunkensturm_def handle_def Let_def conn_writes_append calls_append
        verboseprint_silent)

theorem response_bit_ignored_witness:
  "Response (MsgHdr (example_deref 7 0)) \<and>
   reply True example_deref Pack_ok example_config 0 7
     = (7, [Print_verbose (Some 0) ''ORIGINAL INCOMING'',
            Print_Error ''Response bit set, not replying'']) \<and>
   Response (MsgHdr (globals_deref \<lparr>Zone = zone_zero\<rparr> 0)) \<and>
   handle globals_deref handler_nop handler_nop () 0 \<lparr>Zone = zone_zero\<rparr>
     = (\<lparr>Zone = zone_zero\<rparr>, [])"
proof -
  have h1: "Response (MsgHdr (example_deref 7 0))"
    by (simp add: example_deref_def)
  have h2: "Response (MsgHdr (globals_deref \<lparr>Zone = zone_zero\<rparr> 0))"
    by (simp add: globals_deref_def)
  show ?thesis
    using h1 h2
      response_bit_ignored [of example_deref 7 0 True Pack_ok example_config
        globals_deref "\<lparr>Zone = zone_zero\<rparr>" 0 handler_nop handler_nop "()"]
    by (simp add: verboseprint_def)
qed

section \<open>Properties of \<open>handle\<close>\<close>

lemma handle_leaves_zone_unchecked:
  assumes "\<not> Response (MsgHdr (deref s i))"
  shows "name (Zone (fst (handle deref handleNotify handleXfrOut d i s))) = [] \<or>
         \<not> correct (Zone (fst (handle deref handleNotify handleXfrOut d i s)))"
  using assms by (auto simp: handle_def split: prod.splits)

text \<open>
  Claim C1. A notify for \<open>example.com.\<close> arrives, the transfer completes and the record
  set passes verification: the engine replaces the store and sets \<open>correct\<close>. The last
  statement of \<open>handle\<close> then assigns false to \<open>Zone.correct\<close>, under the comment
  \<open>For now assume ok\<close>, so that \<open>handle\<close> leaves the flag false.
\<close>

theorem handle_clears_correct_after_verified_transfer:
  "correct (Zone (snd (handleNotify_xfr stream_complete 3 () 1 \<lparr>Zone = zone_zero\<rparr>))) = True \<and>
   fst (handleNotify_xfr stream_complete 3 () 1 \<lparr>Zone = zone_zero\<rparr>) = None \<and>
   name (Zone (fst (handle globals_deref (handleNotify_xfr stream_complete 3) handler_nop () 1
                      \<lparr>Zone = zone_zero\<rparr>))) = ''example.com.'' \<and>
   size_z (Zone (fst (handle globals_deref (handleNotify_xfr stream_complete 3) handler_nop () 1
                      \<lparr>Zone = zone_zero\<rparr>))) = 2 \<and>
   correct (Zone (fst (handle globals_deref (handleNotify_xfr stream_complete 3) handler_nop () 1
                      \<lparr>Zone = zone_zero\<rparr>))) = False"
  by (simp add: handle_def handleNotify_xfr_def stream_complete_def xfr_start_def commit_def
        globals_deref_def handler_nop_def zone_capacity_def)

section \<open>Properties of the Transfer Engine\<close>

lemma xfr_step_terminal:
  "phase e = Committed \<or> phase e = Aborted \<Longrightarrow> xfr_step ev e = e"
  by auto

lemma xfr_run_terminal:
  "phase e = Committed \<or> phase e = Aborted \<Longrightarrow> xfr_run evs e = e"
  by (induction evs) (simp_all del: xfr_step.simps add: xfr_step_terminal)

text \<open>A step changes the store only when it commits; a step that reports aborts.\<close>

lemma stream_step_store:
  "store (stream_step ev e) = store e"
  by (cases ev) (simp_all add: abort_def)

lemma xfr_step_store:
  "phase (xfr_step ev e) \<noteq> Committed \<Longrightarrow> store (xfr_step ev e) = store e"
  by (cases "phase e"; cases ev)
     (auto simp: abort_def commit_def stream_step_store split: if_splits)

lemma xfr_step_committed_from:
  "phase (xfr_step ev e) = Committed \<Longrightarrow> phase e = Committed \<or> phase e = Verifying"
  by (cases "phase e"; cases ev) (auto simp: abort_def split: if_splits)

lemma xfr_step_reported:
  assumes "reported e = None \<longleftrightarrow> phase e \<noteq> Aborted"
  shows "reported (xfr_step ev e) = None \<longleftrightarrow> phase (xfr_step ev e) \<noteq> Aborted"
  using assms
  by (cases "phase e"; cases ev) (auto simp: abort_def commit_def split: if_splits)

lemma xfr_run_attempt:
  assumes "reported e = None \<longleftrightarrow> phase e \<noteq> Aborted"
    and "phase e \<noteq> Committed"
  shows "(reported (xfr_run evs e) = None \<longleftrightarrow> phase (xfr_run evs e) \<noteq> Aborted) \<and>
         (phase (xfr_run evs e) \<noteq> Committed \<longrightarrow> store (xfr_run evs e) = store e)"
  using assms
proof (induction evs arbitrary: e)
  case Nil
  then show ?case by simp
next
  case (Cons ev evs)
  let ?e1 = "xfr_step ev e"
  have r1: "reported ?e1 = None \<longleftrightarrow> phase ?e1 \<noteq> Aborted"
    using xfr_step_reported [OF Cons.prems(1)] .
  show ?case
  proof (cases "phase ?e1 = Committed")
    case True
    then have "xfr_run evs ?e1 = ?e1"
      using xfr_run_terminal by blast
    with True r1 show ?thesis by simp
  next
    case False
    then have s1: "store ?e1 = store e"
      by (rule xfr_step_store)
    from Cons.IH [OF r1 False] s1 show ?thesis
      by simp
  qed
qed

lemma failure_aborts:
  "phase e = NotifyReceived \<Longrightarrow>
     phase (xfr_step ConnectFailed e) = Aborted \<and>
     reported (xfr_step ConnectFailed e) = Some ConnectionError"
  "phase e = TransferRequested \<or> phase e = Streaming \<Longrightarrow>
     phase (xfr_step ConnectionDrop e) = Aborted \<and>
     reported (xfr_step ConnectionDrop e) = Some ConnectionError"
  "phase e = TransferRequested \<or> phase e = Streaming \<Longrightarrow>
     phase (xfr_step Malformed e) = Aborted \<and>
     reported (xfr_step Malformed e) = Some MalformedStream"
  "phase e = Verifying \<Longrightarrow>
     phase (xfr_step (Verdict False) e) = Aborted \<and>
     reported (xfr_step (Verdict False) e) = Some VerificationFailure"
  by (auto simp: abort_def)

text \<open>
  Inside \<open>handle\<close>: when the attempt run by \<open>handleNotify\<close> reports a failure and
  \<open>handleXfrOut\<close> does not touch \<open>Zone\<close>, the \<open>Zone\<close> that \<open>handle\<close> leaves is the one it
  found, provided the flag was not set on a named zone; \<open>handle\<close> never leaves it set.
\<close>

lemma handle_failed_transfer_keeps_zone:
  assumes "\<not> Response (MsgHdr (deref s i))"
    and "fst (handleNotify_xfr evs serial d i s) \<noteq> None"
    and "\<And>s1. Zone (snd (handleXfrOut d i s1)) = Zone s1"
    and "name (Zone s) = [] \<or> \<not> correct (Zone s)"
  shows "Zone (fst (handle deref (handleNotify_xfr evs serial) handleXfrOut d i s)) = Zone s"
proof -
  let ?e = "xfr_run evs (xfr_start (Zone s) serial)"
  have "reported (xfr_start (Zone s) serial) = None \<longleftrightarrow> phase (xfr_start (Zone s) serial) \<noteq> Aborted"
    and "phase (xfr_start (Zone s) serial) \<noteq> Committed"
    by (simp_all add: xfr_start_def)
  from xfr_run_attempt [OF this, of evs] assms(2)
  have st: "store ?e = Zone s"
    by (auto simp: handleNotify_xfr_def xfr_start_def)
  obtain err2 s2 where x: "handleXfrOut d i (s\<lparr>Zone := store ?e\<rparr>) = (err2, s2)"
    by (metis prod.exhaust)
  with assms(3) [of "s\<lparr>Zone := store ?e\<rparr>"] st have z2: "Zone s2 = Zone s"
    by simp
  show ?thesis
    using assms(1,4) x z2
    by (auto simp: handle_def handleNotify_xfr_def)
qed

text \<open>
  In an attempt on the store \<open>z\<close>, whatever the events: a failure is reported exactly
  when the attempt ends aborted, and an attempt that does not end committed leaves the
  store of the engine equal to \<open>z\<close>.
\<close>

lemma xfr_run_outcome:
  "(reported (xfr_run evs (xfr_start z serial)) = None \<longleftrightarrow>
      phase (xfr_run evs (xfr_start z serial)) \<noteq> Aborted) \<and>
   (phase (xfr_run evs (xfr_start z serial)) \<noteq> Committed \<longrightarrow>
      store (xfr_run evs (xfr_start z serial)) = z)"
proof -
  have "reported (xfr_start z serial) = None \<longleftrightarrow> phase (xfr_start z serial) \<noteq> Aborted"
    and "phase (xfr_start z serial) \<noteq> Committed"
    by (simp_all add: xfr_start_def)
  from xfr_run_attempt [OF this, of evs] show ?thesis
    by (simp add: xfr_start_def)
qed

lemma xfr_run_append: "xfr_run (pre @ post) e = xfr_run post (xfr_run pre e)"
  by (induction pre arbitrary: e) (simp_all del: xfr_step.simps)

lemma failed_step_aborts:
  assumes "failure_of ev e = Some err"
  shows "xfr_step ev e = abort err e" and "phase e \<noteq> Committed" and "phase e \<noteq> Aborted"
  using assms
  by (cases "phase e"; cases ev; auto simp: failure_of_def split: if_splits)+

text \<open>
  In an attempt on the store \<open>z\<close>: once a step fails, whatever came before and whatever
  comes after, the attempt ends aborted, that failure is what it reports, and the store
  of the engine is \<open>z\<close>.
\<close>

lemma failed_step_aborts_attempt:
  assumes "failure_of ev (xfr_run pre (xfr_start z serial)) = Some err"
  shows "phase (xfr_run (pre @ ev # post) (xfr_start z serial)) = Aborted \<and>
         reported (xfr_run (pre @ ev # post) (xfr_start z serial)) = Some err \<and>
         store (xfr_run (pre @ ev # post) (xfr_start z serial)) = z"
proof -
  let ?e1 = "xfr_run pre (xfr_start z serial)"
  have "reported (xfr_start z serial) = None \<longleftrightarrow> phase (xfr_start z serial) \<noteq> Aborted"
    and "phase (xfr_start z serial) \<noteq> Committed"
    by (simp_all add: xfr_start_def)
  from xfr_run_attempt [OF this, of pre] failed_step_aborts(2) [OF assms]
  have s1: "store ?e1 = z"
    by (simp add: xfr_start_def)
  have st: "xfr_step ev ?e1 = abort err ?e1"
    by (rule failed_step_aborts(1) [OF assms])
  have "xfr_run post (abort err ?e1) = abort err ?e1"
    by (rule xfr_run_terminal) (simp add: abort_def)
  then have "xfr_run (pre @ ev # post) (xfr_start z serial) = abort err ?e1"
    using st by (simp add: xfr_run_append del: xfr_step.simps)
  with s1 show ?thesis
    by (simp add: abort_def)
qed


subsection \<open>The capacity of the store\<close>

lemma zone_zero_bounded: "zone_bounded zone_zero"
  by (simp add: zone_bounded_def zone_zero_def)

lemma stream_step_scratch:
  "length (scratch e) \<le> zone_capacity \<Longrightarrow> length (scratch (stream_step ev e)) \<le> zone_capacity"
  by (cases ev) (simp_all add: abort_def)

lemma xfr_step_bounded:
  assumes "length (scratch e) \<le> zone_capacity" and "zone_bounded (store e)"
  shows "length (scratch (xfr_step ev e)) \<le> zone_capacity \<and> zone_bounded (store (xfr_step ev e))"
proof (cases "phase e")
  case Verifying
  with assms show ?thesis
    by (cases ev) (auto simp: abort_def commit_def zone_bounded_def)
next
  case TransferRequested
  with assms show ?thesis
    by (simp add: stream_step_scratch stream_step_store)
next
  case Streaming
  with assms show ?thesis
    by (simp add: stream_step_scratch stream_step_store)
next
  case Idle
  with assms show ?thesis by (cases ev) auto
next
  case NotifyReceived
  with assms show ?thesis by (cases ev) (auto simp: abort_def)
next
  case Committed
  with assms show ?thesis by simp
next
  case Aborted
  with assms show ?thesis by simp
qed

lemma xfr_run_bounded:
  assumes "length (scratch e) \<le> zone_capacity" and "zone_bounded (store e)"
  shows "zone_bounded (store (xfr_run evs e))"
  using assms
proof (induction evs arbitrary: e)
  case Nil
  then show ?case by simp
next
  case (Cons ev evs)
  from xfr_step_bounded [OF Cons.prems, of ev] Cons.IH [of "xfr_step ev e"]
  show ?case by (simp del: xfr_step.simps)
qed

lemma apply_op_bounded: "zone_bounded z \<Longrightarrow> zone_bounded (apply_op op z)"
proof (cases op)
  case (Transfer evs serial)
  assume "zone_bounded z"
  then have "zone_bounded (store (xfr_run evs (xfr_start z serial)))"
    by (intro xfr_run_bounded) (simp_all add: xfr_start_def)
  with Transfer show ?thesis by simp
next
  case Handle_end
  assume "zone_bounded z"
  with Handle_end show ?thesis by (simp add: zone_bounded_def)
qed

lemma zone_after_bounded: "zone_bounded z \<Longrightarrow> zone_bounded (zone_after ops z)"
  by (induction ops arbitrary: z) (simp_all add: apply_op_bounded)

text \<open>More records than fit: the attempt aborts, overflow is reported, the store stays.\<close>

lemma records_overflow:
  assumes "phase e = TransferRequested \<or> phase e = Streaming"
    and "length (scratch e) \<le> zone_capacity"
    and "zone_capacity < length (scratch e) + length rs"
  shows "phase (xfr_run (map Record rs @ rest) e) = Aborted \<and>
         reported (xfr_run (map Record rs @ rest) e) = Some BufferOverflow \<and>
         store (xfr_run (map Record rs @ rest) e) = store e"
  using assms
proof (induction rs arbitrary: e)
  case Nil
  then show ?case by simp
next
  case (Cons r rs)
  show ?case
  proof (cases "length (scratch e) + 1 > zone_capacity")
    case True
    with Cons.prems(1) have st: "xfr_step (Record r) e = abort BufferOverflow e"
      by auto
    have "xfr_run (map Record rs @ rest) (abort BufferOverflow e) = abort BufferOverflow e"
      by (rule xfr_run_terminal) (simp add: abort_def)
    with st show ?thesis
      by (simp del: xfr_step.simps add: abort_def)
  next
    case False
    let ?e1 = "e\<lparr>phase := Streaming, scratch := scratch e @ [r]\<rparr>"
    from False Cons.prems(1) have st: "xfr_step (Record r) e = ?e1"
      by auto
    have "phase ?e1 = TransferRequested \<or> phase ?e1 = Streaming"
      and "length (scratch ?e1) \<le> zone_capacity"
      and "zone_capacity < length (scratch ?e1) + length rs"
      using False Cons.prems(3) by simp_all
    from Cons.IH [OF this] st show ?thesis
      by (simp del: xfr_step.simps)
  qed
qed

text \<open>
  Claim C5. After any sequence of transfer attempts and ends of \<open>handle\<close>, from the zero
  value of \<open>Zone\<close> on, the array has 10000 elements and the count lies between 0 and
  10000. A transfer that delivers more than 10000 records ends aborted, reports the
  overflow, and leaves the store as it was.
\<close>

theorem zone_store_capacity:
  "length (rrs (zone_after ops zone_zero)) = 10000 \<and>
   0 \<le> size_z (zone_after ops zone_zero) \<and>
   size_z (zone_after ops zone_zero) \<le> 10000 \<and>
   (10000 < length rs \<and> held < serial \<longrightarrow>
      phase (xfr_run (Notify z serial # Connected # map Record rs @ rest)
               (xfr_start (zone_after ops zone_zero) held)) = Aborted \<and>
      reported (xfr_run (Notify z serial # Connected # map Record rs @ rest)
               (xfr_start (zone_after ops zone_zero) held)) = Some BufferOverflow \<and>
      store (xfr_run (Notify z serial # Connected # map Record rs @ rest)
               (xfr_start (zone_after ops zone_zero) held)) = zone_after ops zone_zero)"
proof -
  have b: "zone_bounded (zone_after ops zone_zero)"
    by (rule zone_after_bounded) (rule zone_zero_bounded)
  have o: "phase (xfr_run (map Record rs @ rest) e) = Aborted \<and>
           reported (xfr_run (map Record rs @ rest) e) = Some BufferOverflow \<and>
           store (xfr_run (map Record rs @ rest) e) = zone_after ops zone_zero"
    if "10000 < length rs" and "held < serial"
      and e: "e = (xfr_start (zone_after ops zone_zero) held)
                    \<lparr>phase := TransferRequested, apex := z, new_serial := serial, scratch := []\<rparr>"
    for e
    using records_overflow [of e rs rest] that
    by (simp add: zone_capacity_def xfr_start_def)
  show ?thesis
    using b o by (simp add: zone_bounded_def zone_capacity_def xfr_start_def)
qed

theorem zone_store_capacity_witness:
  "(10000 < length (replicate 10001 (0::nat)) \<and> (3::nat) < 5) \<and>
   phase (xfr_run (Notify ''example.com.'' 5 # Connected # map Record (replicate 10001 0) @ [])
            (xfr_start (zone_after [Transfer stream_complete 3, Handle_end] zone_zero) 3))
     = Aborted \<and>
   reported (xfr_run (Notify ''example.com.'' 5 # Connected # map Record (replicate 10001 0) @ [])
            (xfr_start (zone_after [Transfer stream_complete 3, Handle_end] zone_zero) 3))
     = Some BufferOverflow \<and>
   size_z (zone_after [Transfer stream_complete 3, Handle_end] (zone_zero :: nat zone)) = 2"
proof -
  have h: "10000 < length (replicate 10001 (0::nat)) \<and> (3::nat) < 5"
    by simp
  have s: "size_z (zone_after [Transfer stream_complete 3, Handle_end] (zone_zero :: nat zone)) = 2"
    by (simp add: stream_complete_def xfr_start_def commit_def zone_capacity_def)
  show ?thesis
    using h s
      zone_store_capacity [of "[Transfer stream_complete 3, Handle_end]" "replicate 10001 0" 3 5
        "''example.com.''" "[]"]
    by simp
qed

end
